theory Spec2Isabelle
  imports Main
begin

section \<open>Strings of the mapfile analysers\<close>

text \<open>
  The analysers are JavaScript/TypeScript functions over strings. A string is modelled
  as a \<^typ>\<open>string\<close>; every \<^typ>\<open>char\<close> stands for one UTF-16 code unit below 256
  (the Latin-1 range), which covers the whole mapfile syntax. JavaScript arrays are lists
  in the same order (\<open>push\<close> appends at the end, \<open>pop\<close> removes the last element).
\<close>

definition LF :: char where "LF = CHR 0x0A"
definition CR :: char where "CR = CHR 0x0D"
definition TAB :: char where "TAB = CHR 0x09"

text \<open>
  \<open>String.prototype.trim\<close> and the regular-expression class \<open>\s\<close> use the same set:
  the code units of WhiteSpace and LineTerminator. Below 256 these are TAB, LF, VT, FF,
  CR, SPACE and NBSP.
\<close>

definition is_ws :: "char \<Rightarrow> bool" where
  "is_ws c \<longleftrightarrow> c = CHR 0x09 \<or> c = CHR 0x0A \<or> c = CHR 0x0B \<or> c = CHR 0x0C \<or> c = CHR 0x0D
     \<or> c = CHR 0x20 \<or> c = CHR 0xA0"

text \<open>The regular-expression dot does not match a line terminator.\<close>

definition is_line_term :: "char \<Rightarrow> bool" where
  "is_line_term c \<longleftrightarrow> c = CHR 0x0A \<or> c = CHR 0x0D"

definition is_upper :: "char \<Rightarrow> bool" where
  "is_upper c \<longleftrightarrow> (65::nat) \<le> of_char c \<and> (of_char c :: nat) \<le> 90"

definition is_lower :: "char \<Rightarrow> bool" where
  "is_lower c \<longleftrightarrow> (97::nat) \<le> of_char c \<and> (of_char c :: nat) \<le> 122"

definition is_digit :: "char \<Rightarrow> bool" where
  "is_digit c \<longleftrightarrow> (48::nat) \<le> of_char c \<and> (of_char c :: nat) \<le> 57"

text \<open>\<open>[A-Za-z_]\<close> and \<open>[A-Za-z0-9_]\<close> (also \<open>\w\<close>, and \<open>[A-Z0-9_]\<close> under the flag \<open>i\<close>).\<close>

definition is_word_start :: "char \<Rightarrow> bool" where
  "is_word_start c \<longleftrightarrow> is_upper c \<or> is_lower c \<or> c = CHR ''_''"

definition is_word_char :: "char \<Rightarrow> bool" where
  "is_word_char c \<longleftrightarrow> is_upper c \<or> is_lower c \<or> is_digit c \<or> c = CHR ''_''"

text \<open>
  \<open>toUpperCase\<close> and \<open>toLowerCase\<close>, exact on ASCII. The code compares their results
  with ASCII keywords only, and no code unit of the Latin-1 range outside ASCII is mapped
  into ASCII by JavaScript, so the other code units are left as they are. The same
  function gives the case-insensitive match of an ASCII keyword under the flag \<open>i\<close>.
\<close>

definition up_char :: "char \<Rightarrow> char" where
  "up_char c = (if is_lower c then char_of (of_char c - (32::nat)) else c)"


definition toUpperCase :: "string \<Rightarrow> string" where
  "toUpperCase s = map up_char s"


definition trimStart :: "string \<Rightarrow> string" where
  "trimStart s = dropWhile is_ws s"

definition trimEnd :: "string \<Rightarrow> string" where
  "trimEnd s = rev (dropWhile is_ws (rev s))"

definition trim :: "string \<Rightarrow> string" where
  "trim s = trimEnd (trimStart s)"

definition startsWith :: "string \<Rightarrow> string \<Rightarrow> bool" where
  "startsWith s p \<longleftrightarrow> take (length p) s = p"

text \<open>\<open>s.split(/\r?\n/)\<close>: a line ends at LF or at CR LF; a CR alone stays in its line.\<close>

fun split_lines :: "string \<Rightarrow> string list" where
  "split_lines [] = [[]]"
| "split_lines (c # cs) =
     (if c = LF then [] # split_lines cs
      else if c = CR \<and> cs \<noteq> [] \<and> hd cs = LF then [] # split_lines (tl cs)
      else (case split_lines cs of
              [] \<Rightarrow> [[c]]
            | l # ls \<Rightarrow> (c # l) # ls))"

text \<open>\<open>lines.join(sep)\<close>.\<close>

fun join :: "string \<Rightarrow> string list \<Rightarrow> string" where
  "join sep [] = []"
| "join sep [l] = l"
| "join sep (l # ls) = l @ sep @ join sep ls"

section \<open>Formatter (\<open>formatMapfile\<close>)\<close>

text \<open>\<open>text.replace(/\t/g, '  ')\<close>.\<close>

definition replace_tabs :: "string \<Rightarrow> string" where
  "replace_tabs s = concat (map (\<lambda>c. if c = TAB then ''  '' else [c]) s)"

definition OPENERS :: "string list" where
  "OPENERS = [''MAP'', ''LAYER'', ''CLASS'', ''STYLE'', ''LABEL'', ''PROJECTION'', ''METADATA'',
     ''OUTPUTFORMAT'', ''WEB'', ''FEATURE'', ''LEGEND'', ''SCALEBAR'', ''QUERYMAP'',
     ''CLUSTER'', ''GRID'', ''LEADER'', ''SYMBOL'', ''VALIDATION'', ''JOIN'', ''JOINS'',
     ''GEOTRANSFORM'', ''COMPOSITE'', ''PATTERN'']"

text \<open>
  One alternative \<open>k\<close> of \<open>openerLine = /^(MAP|LAYER|...)\s*(?:#.*)?$/i\<close>: the keyword,
  whitespace, and nothing more or a \<open>#\<close> comment without a line terminator.
\<close>

definition opener_alt :: "string \<Rightarrow> string \<Rightarrow> bool" where
  "opener_alt k t \<longleftrightarrow>
     toUpperCase (take (length k) t) = k \<and>
     (let r = dropWhile is_ws (drop (length k) t)
      in r = [] \<or> (hd r = CHR ''#'' \<and> list_all (\<lambda>c. \<not> is_line_term c) (tl r)))"

text \<open>
  \<open>trimmed.match(openerLine)\<close>: the alternatives are tried in their order; the result
  is the keyword matched (group 1), already in upper case.
\<close>

definition openerLine :: "string \<Rightarrow> string option" where
  "openerLine t = find (\<lambda>k. opener_alt k t) OPENERS"

text \<open>
  \<open>endLine = /^END(?:\s*(?:#\s*)?([A-Z0-9_]+))?\s*$/i\<close>. The result is \<open>None\<close> when the
  line does not match, \<open>Some None\<close> when it matches without a block name, and
  \<open>Some (Some name)\<close> when group 1 is the block name.
\<close>

definition endLine :: "string \<Rightarrow> string option option" where
  "endLine t =
     (if toUpperCase (take 3 t) = ''END'' then
        (let r1 = dropWhile is_ws (drop 3 t) in
         if r1 = [] then Some None
         else
           (let r2 = (if hd r1 = CHR ''#'' then dropWhile is_ws (tl r1) else r1);
                name = takeWhile is_word_char r2;
                r3 = dropWhile is_word_char r2
            in if name \<noteq> [] \<and> dropWhile is_ws r3 = [] then Some (Some name) else None))
      else None)"

text \<open>
  The realignment of an \<open>END\<close> line that names its block: search the stack from the top
  for the name; when it is found, cut the stack right after it (\<open>stack.length = idx + 1\<close>).
\<close>

definition realign :: "string list \<Rightarrow> string \<Rightarrow> string list" where
  "realign stack name =
     (let r = dropWhile (\<lambda>s. toUpperCase s \<noteq> name) (rev stack)
      in if r = [] then stack else rev r)"

definition IND :: "int \<Rightarrow> string" where
  "IND indentSize = replicate (nat (if indentSize > 0 then indentSize else 4)) CHR '' ''"

definition indent :: "int \<Rightarrow> nat \<Rightarrow> string" where
  "indent indentSize level = concat (replicate level (IND indentSize))"

text \<open>
  The body of the loop over the lines: from the stack and a raw line to the new stack
  and the line pushed to \<open>out\<close>.
\<close>

definition format_line :: "int \<Rightarrow> string list \<Rightarrow> string \<Rightarrow> string list \<times> string" where
  "format_line indentSize stack raw =
     (let trimmed = trim raw in
      if trimmed = [] then (stack, [])
      else if startsWith trimmed ''#'' then (stack, indent indentSize (length stack) @ trimmed)
      else
        (case endLine trimmed of
           Some mEnd \<Rightarrow>
             (let stack1 = (case mEnd of
                              Some name \<Rightarrow> realign stack (toUpperCase name)
                            | None \<Rightarrow> stack);
                  stack2 = (if length stack1 > 0 then butlast stack1 else stack1)
              in (stack2, indent indentSize (length stack2) @ trimmed))
         | None \<Rightarrow>
             (let line = indent indentSize (length stack) @ trimmed in
              case openerLine trimmed of
                Some kw \<Rightarrow>
                  (let rest = trim (drop (length kw) trimmed) in
                   if rest = [] \<or> startsWith rest ''#'' then (stack @ [kw], line)
                   else (stack, line))
              | None \<Rightarrow> (stack, line))))"

fun format_lines :: "int \<Rightarrow> string list \<Rightarrow> string list \<Rightarrow> string list" where
  "format_lines indentSize stack [] = []"
| "format_lines indentSize stack (raw # raws) =
     (case format_line indentSize stack raw of
        (stack', line) \<Rightarrow> line # format_lines indentSize stack' raws)"

definition formatMapfile :: "string \<Rightarrow> int \<Rightarrow> string" where
  "formatMapfile src indentSize =
     join [LF] (format_lines indentSize [] (split_lines (replace_tabs src)))"

section \<open>Shared tokenizer (\<open>tokenizeLine\<close>)\<close>

text \<open>
  \<open>endDetector\<close> and \<open>syntaxisErrorDetector\<close> each carry a copy of \<open>tokenizeLine\<close>; the
  two copies are the same code, modelled once. A token is a word with its text and
  1-based column, or a string with its value, column, quote character and \<open>closed\<close> flag.
\<close>

datatype token = WordTok string nat | StringTok string nat char bool

fun is_word_tok :: "token \<Rightarrow> bool" where
  "is_word_tok (WordTok t c) = True"
| "is_word_tok (StringTok v c q cl) = False"

fun tok_text :: "token \<Rightarrow> string" where
  "tok_text (WordTok t c) = t"
| "tok_text (StringTok v c q cl) = v"

fun tok_col :: "token \<Rightarrow> nat" where
  "tok_col (WordTok t c) = c"
| "tok_col (StringTok v c q cl) = c"

record lexer_state =
  inBlockComment :: bool
  inQuote :: bool
  quoteChar :: string

definition initial_lexer_state :: lexer_state where
  "initial_lexer_state = \<lparr>inBlockComment = False, inQuote = False, quoteChar = []\<rparr>"

text \<open>\<open>line.indexOf('*/', i)\<close> on the rest of the line: the text after the first \<open>*/\<close>.\<close>

fun after_block_comment :: "string \<Rightarrow> string option" where
  "after_block_comment (c # d # cs) =
     (if c = CHR ''*'' \<and> d = CHR ''/'' then Some cs else after_block_comment (d # cs))"
| "after_block_comment cs = None"

text \<open>
  The loop inside a quote carried over from an earlier line: the text after the closing
  quote, or \<open>None\<close> when the line ends inside the quote.
\<close>

fun skip_quote :: "string \<Rightarrow> bool \<Rightarrow> string \<Rightarrow> string option" where
  "skip_quote q escaped [] = None"
| "skip_quote q escaped (c # cs) =
     (if escaped then skip_quote q False cs
      else if c = CHR 0x5C then skip_quote q True cs
      else if [c] = q then Some cs
      else skip_quote q False cs)"

text \<open>
  The loop after an opening quote: the value read, whether the quote was closed, and the
  text after the closing quote.
\<close>

fun read_quote :: "char \<Rightarrow> bool \<Rightarrow> string \<Rightarrow> string \<Rightarrow> string \<times> bool \<times> string" where
  "read_quote q escaped val [] = (val, False, [])"
| "read_quote q escaped val (c # cs) =
     (if escaped then read_quote q False (val @ [c]) cs
      else if c = CHR 0x5C then read_quote q True val cs
      else if c = q then (val, True, cs)
      else read_quote q False (val @ [c]) cs)"

lemma after_block_comment_length:
  "after_block_comment s = Some r \<Longrightarrow> length r < length s"
  by (induction s arbitrary: r rule: after_block_comment.induct) (auto split: if_splits)

lemma skip_quote_length:
  "skip_quote q e s = Some r \<Longrightarrow> length r < length s"
  by (induction q e s arbitrary: r rule: skip_quote.induct) (auto split: if_splits)

lemma read_quote_length:
  "read_quote q e v s = (val, cl, r) \<Longrightarrow> length r \<le> length s"
  by (induction q e v s arbitrary: val cl r rule: read_quote.induct) (auto split: if_splits)

text \<open>
  The \<open>while (i < line.length)\<close> loop. \<open>i\<close> is the 0-based index of the head of \<open>rest\<close>
  in the line; \<open>ml\<close> is \<open>allowMultilineQuotes\<close>. The result is
  \<open>(tokens, state, unclosedQuotes)\<close>.
\<close>

function tokenize_loop ::
  "bool \<Rightarrow> nat \<Rightarrow> string \<Rightarrow> lexer_state \<Rightarrow> token list \<Rightarrow> (nat \<times> char) list \<Rightarrow>
   token list \<times> lexer_state \<times> (nat \<times> char) list" where
  "tokenize_loop ml i [] st toks uq = (toks, st, uq)"
| "tokenize_loop ml i (ch # cs) st toks uq =
     (if inBlockComment st then
        (case after_block_comment (ch # cs) of
           None \<Rightarrow> (toks, st, uq)
         | Some r \<Rightarrow>
             tokenize_loop ml (i + (length (ch # cs) - length r)) r
               (st\<lparr>inBlockComment := False\<rparr>) toks uq)
      else if inQuote st then
        (case skip_quote (quoteChar st) False (ch # cs) of
           None \<Rightarrow> (toks, st, uq)
         | Some r \<Rightarrow>
             tokenize_loop ml (i + (length (ch # cs) - length r)) r
               (st\<lparr>inQuote := False, quoteChar := []\<rparr>) toks uq)
      else if ch = CHR ''#'' then (toks, st, uq)
      else if ch = CHR ''/'' \<and> cs \<noteq> [] \<and> hd cs = CHR ''/'' then (toks, st, uq)
      else if ch = CHR ''/'' \<and> cs \<noteq> [] \<and> hd cs = CHR ''*'' then
        tokenize_loop ml (i + 2) (tl cs) (st\<lparr>inBlockComment := True\<rparr>) toks uq
      else if is_ws ch then tokenize_loop ml (i + 1) cs st toks uq
      else if ch = CHR 0x22 \<or> ch = CHR 0x27 then
        (case read_quote ch False [] cs of
           (val, closed, r) \<Rightarrow>
             (let toks' = toks @ [StringTok val (i + 1) ch closed] in
              if \<not> closed then
                (if ml then
                   tokenize_loop ml (i + 1 + (length cs - length r)) r
                     (st\<lparr>inQuote := True, quoteChar := [ch]\<rparr>) toks' (uq @ [(i + 1, ch)])
                 else (toks', st, uq @ [(i + 1, ch)]))
              else tokenize_loop ml (i + 1 + (length cs - length r)) r st toks' uq))
      else if is_word_start ch then
        (let w = ch # takeWhile is_word_char cs
         in tokenize_loop ml (i + length w) (dropWhile is_word_char cs) st
              (toks @ [WordTok w (i + 1)]) uq)
      else tokenize_loop ml (i + 1) cs st toks uq)"
  by pat_completeness auto
termination
proof (relation "measure (\<lambda>(ml, i, rest, st, toks, uq). length rest)")
qed (auto simp del: after_block_comment.simps skip_quote.simps read_quote.simps
          simp: length_dropWhile_le le_imp_less_Suc
          dest: after_block_comment_length skip_quote_length
          dest!: read_quote_length [OF sym])

definition tokenizeLine ::
  "string \<Rightarrow> lexer_state \<Rightarrow> bool \<Rightarrow> token list \<times> lexer_state \<times> (nat \<times> char) list" where
  "tokenizeLine line state allowMultilineQuotes =
     tokenize_loop allowMultilineQuotes 0 line state [] []"

section \<open>Balance detector (\<open>endDetector\<close>, \<open>analyze\<close>)\<close>

definition DEFAULT_BLOCK_OPENERS :: "string list" where
  "DEFAULT_BLOCK_OPENERS = [''MAP'', ''LAYER'', ''CLASS'', ''STYLE'', ''LABEL'', ''LEADER'',
     ''WEB'', ''METADATA'', ''PROJECTION'', ''OUTPUTFORMAT'', ''SYMBOL'', ''QUERYMAP'',
     ''REFERENCE'', ''SCALEBAR'', ''LEGEND'', ''VALIDATION'', ''JOIN'', ''CLUSTER'',
     ''COMPOSITE'', ''FEATURE'', ''GRID'', ''IDENTIFY'', ''PATTERN'', ''POINTS'']"

text \<open>\<open>isAllCapsIdentifier\<close>: \<open>/^[A-Z_][A-Z0-9_]*$/\<close>.\<close>

definition isAllCapsIdentifier :: "string \<Rightarrow> bool" where
  "isAllCapsIdentifier s \<longleftrightarrow>
     s \<noteq> [] \<and> (is_upper (hd s) \<or> hd s = CHR ''_'') \<and>
     list_all (\<lambda>c. is_upper c \<or> is_digit c \<or> c = CHR ''_'') (tl s)"

text \<open>\<open>text.replace(/\r\n?/g, '\n')\<close>: CR LF and a CR alone both become LF.\<close>

fun replace_cr_lf :: "string \<Rightarrow> string" where
  "replace_cr_lf [] = []"
| "replace_cr_lf (c # cs) =
     (if c = CR then
        (case cs of
           [] \<Rightarrow> [LF]
         | d # ds \<Rightarrow> if d = LF then LF # replace_cr_lf ds else LF # replace_cr_lf cs)
      else c # replace_cr_lf cs)"

text \<open>\<open>s.split(d)\<close> for a separator of one character.\<close>

fun split_on :: "char \<Rightarrow> string \<Rightarrow> string list" where
  "split_on d [] = [[]]"
| "split_on d (c # cs) =
     (if c = d then [] # split_on d cs
      else (case split_on d cs of
              [] \<Rightarrow> [[c]]
            | l # ls \<Rightarrow> (c # l) # ls))"

text \<open>
  The options of \<open>analyze\<close> with their defaults resolved: \<open>extraOpeners\<close> (none),
  \<open>enableHeuristicOpeners\<close> (true unless set to false), \<open>allowMultilineQuotes\<close> and
  \<open>allowInlineEndWithoutOpener\<close> (true only when set to true).
\<close>

record analyze_options =
  extraOpeners :: "string list"
  enableHeuristicOpeners :: bool
  allowMultilineQuotes :: bool
  allowInlineEndWithoutOpener :: bool


text \<open>A stack frame \<open>{type, line, col}\<close> and an entry \<open>{line, col, excerpt}\<close> of \<open>extraEnds\<close>.\<close>

record frame =
  ftype :: string
  fline :: nat
  fcol :: nat

record extra_end =
  eline :: nat
  ecol :: nat
  excerpt :: string

text \<open>
  The message of \<open>analyze\<close> is a list of lines joined by LF. The lines are Greek text
  built from templates; the model keeps one constructor for each template, with the
  values the template interpolates.
\<close>

datatype message_part =
    MsgTitle
  | MsgNoProblem
  | MsgFound nat nat
  | MsgExtraHeading
  | MsgExtraEnd nat nat string
  | MsgMissingHeading
  | MsgMissingEnd string nat nat
  | MsgNesting "(string \<times> nat \<times> nat) list"

record analyze_result =
  ok :: bool
  extraEnds :: "extra_end list"
  missingEnds :: "frame list"
  message :: "message_part list"

definition openers_of :: "analyze_options \<Rightarrow> string list" where
  "openers_of options = DEFAULT_BLOCK_OPENERS @ map toUpperCase (extraOpeners options)"

text \<open>
  The loop over the word tokens of a line that handles the \<open>END\<close> tokens. \<open>tIdx\<close> is
  the index of the head of the token list; \<open>honorAll\<close> is
  \<open>allowInlineEndWithoutOpener || openedThisLine\<close>.
\<close>

fun handle_ends ::
  "bool \<Rightarrow> nat \<Rightarrow> string \<Rightarrow> nat \<Rightarrow> token list \<Rightarrow> frame list \<times> extra_end list \<Rightarrow>
   frame list \<times> extra_end list" where
  "handle_ends honorAll lineNo line tIdx [] (stack, extra) = (stack, extra)"
| "handle_ends honorAll lineNo line tIdx (tok # toks) (stack, extra) =
     (if toUpperCase (tok_text tok) \<noteq> ''END'' then
        handle_ends honorAll lineNo line (tIdx + 1) toks (stack, extra)
      else if \<not> (tIdx = 0 \<or> honorAll) then
        handle_ends honorAll lineNo line (tIdx + 1) toks (stack, extra)
      else if length stack = 0 then
        handle_ends honorAll lineNo line (tIdx + 1) toks
          (stack, extra @ [\<lparr>eline = lineNo, ecol = tok_col tok, excerpt = take 200 (trim line)\<rparr>])
      else handle_ends honorAll lineNo line (tIdx + 1) toks (butlast stack, extra))"

text \<open>The body of the loop over the lines, on the state \<open>(stack, extraEnds, state)\<close>.\<close>

definition analyze_line ::
  "analyze_options \<Rightarrow> nat \<Rightarrow> string \<Rightarrow> frame list \<times> extra_end list \<times> lexer_state \<Rightarrow>
   frame list \<times> extra_end list \<times> lexer_state" where
  "analyze_line options lineNo line s =
     (case s of (stack, extra, state) \<Rightarrow>
      (case tokenizeLine line state (allowMultilineQuotes options) of
         (tokens, state', unclosedQuotes) \<Rightarrow>
           (let wordTokens = filter is_word_tok tokens in
            if wordTokens = [] then (stack, extra, state')
            else
              (let first = toUpperCase (tok_text (hd wordTokens));
                   isKnownOpener = (first \<in> set (openers_of options));
                   isHeuristicOpener =
                     (enableHeuristicOpeners options \<and> length wordTokens = 1 \<and>
                      isAllCapsIdentifier first \<and> length first \<ge> 3 \<and> first \<noteq> ''END'');
                   openedThisLine = (isKnownOpener \<or> isHeuristicOpener);
                   stack1 = (if openedThisLine
                             then stack @ [\<lparr>ftype = first, fline = lineNo,
                                                fcol = tok_col (hd wordTokens)\<rparr>]
                             else stack)
               in (case handle_ends (allowInlineEndWithoutOpener options \<or> openedThisLine)
                          lineNo line 0 wordTokens (stack1, extra) of
                     (stack2, extra2) \<Rightarrow> (stack2, extra2, state'))))))"

fun analyze_lines ::
  "analyze_options \<Rightarrow> nat \<Rightarrow> string list \<Rightarrow> frame list \<times> extra_end list \<times> lexer_state \<Rightarrow>
   frame list \<times> extra_end list \<times> lexer_state" where
  "analyze_lines options idx [] s = s"
| "analyze_lines options idx (line # lines) s =
     analyze_lines options (idx + 1) lines (analyze_line options (idx + 1) line s)"

definition analyze :: "string \<Rightarrow> analyze_options \<Rightarrow> analyze_result" where
  "analyze mapfileText options =
     (let lines = split_on LF (replace_cr_lf mapfileText) in
      case analyze_lines options 0 lines ([], [], initial_lexer_state) of
        (stack, extra, state) \<Rightarrow>
          (let missing = stack;
               isOk = (length extra = 0 \<and> length missing = 0)
           in if isOk then
                \<lparr>ok = isOk, extraEnds = extra, missingEnds = missing,
                 message = [MsgTitle, MsgNoProblem]\<rparr>
              else
                \<lparr>ok = isOk, extraEnds = extra, missingEnds = missing,
                 message =
                   [MsgTitle, MsgFound (length extra) (length missing)]
                   @ (if extra \<noteq> [] then
                        MsgExtraHeading # map (\<lambda>e. MsgExtraEnd (eline e) (ecol e) (excerpt e)) extra
                      else [])
                   @ (if missing \<noteq> [] then
                        MsgMissingHeading
                        # map (\<lambda>b. MsgMissingEnd (ftype b) (fline b) (fcol b)) (rev missing)
                        @ [MsgNesting (map (\<lambda>b. (ftype b, fline b, fcol b)) missing)]
                      else [])\<rparr>))"

text \<open>\<open>endDetector\<close> returns the message only.\<close>

definition endDetector :: "string \<Rightarrow> analyze_options \<Rightarrow> message_part list" where
  "endDetector mapfileText options = message (analyze mapfileText options)"

section \<open>Synthetic texts of block openers and \<open>END\<close> lines\<close>









text \<open>
  The events of a text, counted without the stack: the number of lines on which
  \<open>openedThisLine\<close> holds (each pushes one frame), and the number of \<open>END\<close> tokens that the
  loop over the word tokens honours.
\<close>

definition openedThisLine :: "analyze_options \<Rightarrow> token list \<Rightarrow> bool" where
  "openedThisLine options wordTokens \<longleftrightarrow>
     (let first = toUpperCase (tok_text (hd wordTokens))
      in first \<in> set (openers_of options) \<or>
         (enableHeuristicOpeners options \<and> length wordTokens = 1 \<and>
          isAllCapsIdentifier first \<and> length first \<ge> 3 \<and> first \<noteq> ''END''))"




section \<open>WFS-capability classifier (\<open>wfs_support_checker.js\<close>)\<close>




























text \<open>
  \<open>subseq_match ps xs\<close>: the list \<open>xs\<close> has elements at increasing positions that satisfy
  the predicates \<open>ps\<close>, in this order (each predicate is matched at the earliest element
  that satisfies it).
\<close>

fun subseq_match :: "('a \<Rightarrow> bool) list \<Rightarrow> 'a list \<Rightarrow> bool" where
  "subseq_match [] xs = True"
| "subseq_match (p # ps) [] = False"
| "subseq_match (p # ps) (x # xs) = (if p x then subseq_match ps xs else subseq_match (p # ps) xs)"



section \<open>Syntax and context checker (\<open>syntaxisErrorDetector\<close>)\<close>

text \<open>\<open>looksUpperKeyword\<close> is the regular expression of \<open>isAllCapsIdentifier\<close>.\<close>

definition looksUpperKeyword :: "string \<Rightarrow> bool" where
  "looksUpperKeyword tokenValue = isAllCapsIdentifier tokenValue"

text \<open>
  \<open>levenshtein\<close>: the two-row dynamic programme. \<open>lev_row\<close> computes the row \<open>v1\<close> of the
  character \<open>ca\<close> from the row \<open>v0\<close>; its argument \<open>left\<close> is \<open>v1[j]\<close>.
\<close>

fun lev_row :: "char \<Rightarrow> string \<Rightarrow> nat list \<Rightarrow> nat \<Rightarrow> nat list" where
  "lev_row ca (cb # b) (d # u # v0) left =
     (let cost = (if ca = cb then 0 else 1);
          x = min (min (u + 1) (left + 1)) (d + cost)
      in x # lev_row ca b (u # v0) x)"
| "lev_row ca b v0 left = []"

fun lev_rows :: "string \<Rightarrow> string \<Rightarrow> nat list \<Rightarrow> nat \<Rightarrow> nat list" where
  "lev_rows [] b v0 i = v0"
| "lev_rows (ca # a) b v0 i = lev_rows a b ((i + 1) # lev_row ca b v0 (i + 1)) (i + 1)"

definition levenshtein :: "string \<Rightarrow> string \<Rightarrow> nat" where
  "levenshtein a b =
     (if a = b then 0
      else if length a = 0 then length b
      else if length b = 0 then length a
      else
        (let a' = (if length b > length a then b else a);
             b' = (if length b > length a then a else b)
         in last (lev_rows a' b' [0..<Suc (length b')] 0)))"

text \<open>The options with their defaults resolved.\<close>

record detector_options =
  includeNotes :: bool
  softSuppressionLines :: nat
  enableSuggestions :: bool
  maxSuggestions :: nat
  detAllowMultilineQuotes :: bool

definition default_detector_options :: detector_options where
  "default_detector_options =
     \<lparr>includeNotes = True, softSuppressionLines = 25, enableSuggestions = True,
      maxSuggestions = 3, detAllowMultilineQuotes = False\<rparr>"

definition BLOCKS :: "string list" where
  "BLOCKS = [''MAP'', ''LAYER'', ''CLASS'', ''STYLE'', ''WEB'', ''METADATA'', ''PROJECTION'', ''LABEL'',
     ''OUTPUTFORMAT'', ''SYMBOL'', ''LEGEND'', ''SCALEBAR'', ''QUERYMAP'', ''REFERENCE'', ''CLUSTER'',
     ''GRID'', ''COMPOSITE'']"

definition ALLOWED_PARENTS :: "(string \<times> string list) list" where
  "ALLOWED_PARENTS =
     [(''MAP'', [''ROOT'']),
      (''LAYER'', [''MAP'']),
      (''CLASS'', [''LAYER'']),
      (''STYLE'', [''CLASS'', ''LABEL'']),
      (''LABEL'', [''CLASS'']),
      (''WEB'', [''MAP'']),
      (''METADATA'', [''MAP'', ''LAYER'', ''CLASS'', ''WEB'', ''OUTPUTFORMAT'']),
      (''PROJECTION'', [''MAP'', ''LAYER'']),
      (''OUTPUTFORMAT'', [''MAP'']),
      (''SYMBOL'', [''MAP'']),
      (''LEGEND'', [''MAP'']),
      (''SCALEBAR'', [''MAP'']),
      (''QUERYMAP'', [''MAP'']),
      (''REFERENCE'', [''MAP'']),
      (''CLUSTER'', [''LAYER'']),
      (''GRID'', [''LAYER'']),
      (''COMPOSITE'', [''LAYER''])]"

text \<open>
  \<open>ALLOWED_FIRST_TOKENS\<close>, in the order of its keys; \<open>None\<close> is the value \<open>null\<close> of
  \<open>METADATA\<close> and \<open>PROJECTION\<close>.
\<close>

definition ALLOWED_FIRST_TOKENS :: "(string \<times> string list option) list" where
  "ALLOWED_FIRST_TOKENS =
     [(''ROOT'', Some [''MAP'']),
      (''MAP'', Some [''NAME'', ''STATUS'', ''EXTENT'', ''UNITS'', ''SIZE'', ''IMAGETYPE'', ''IMAGECOLOR'',
         ''SHAPEPATH'', ''FONTSET'', ''SYMBOLSET'', ''CONFIG'', ''DEBUG'',
         ''OUTPUTFORMAT'', ''SYMBOL'', ''WEB'', ''LAYER'',
         ''LEGEND'', ''SCALEBAR'', ''QUERYMAP'', ''REFERENCE'',
         ''PROJECTION'', ''METADATA'',
         ''MAXSIZE'', ''RESOLUTION'', ''DEFRESOLUTION'', ''ANGLE'', ''TRANSPARENT'',
         ''END'', ''INCLUDE'']),
      (''LAYER'', Some [''NAME'', ''TYPE'', ''STATUS'', ''DATA'', ''CONNECTION'', ''CONNECTIONTYPE'',
         ''FILTER'', ''FILTERITEM'', ''FILTERTYPE'',
         ''CLASSITEM'', ''LABELITEM'', ''GROUP'',
         ''MINSCALEDENOM'', ''MAXSCALEDENOM'',
         ''MINDISTANCE'', ''MAXDISTANCE'',
         ''OPACITY'', ''TRANSPARENCY'',
         ''PROCESSING'', ''VALIDATION'', ''TEMPLATE'', ''HEADER'', ''FOOTER'',
         ''TOLERANCE'', ''TOLERANCEUNITS'',
         ''PROJECTION'', ''METADATA'',
         ''CLASS'', ''CLUSTER'', ''GRID'', ''COMPOSITE'',
         ''END'', ''INCLUDE'']),
      (''CLASS'', Some [''NAME'', ''TITLE'', ''GROUP'', ''EXPRESSION'', ''TEXT'',
         ''MINSCALEDENOM'', ''MAXSCALEDENOM'',
         ''STYLE'', ''LABEL'',
         ''TEMPLATE'', ''KEYIMAGE'',
         ''METADATA'',
         ''OPACITY'',
         ''END'', ''INCLUDE'']),
      (''STYLE'', Some [''COLOR'', ''OUTLINECOLOR'', ''WIDTH'', ''MINWIDTH'', ''MAXWIDTH'',
         ''SIZE'', ''MINSIZE'', ''MAXSIZE'',
         ''SYMBOL'', ''PATTERN'', ''GAP'', ''ANGLE'',
         ''OPACITY'',
         ''END'']),
      (''LABEL'', Some [''TEXT'', ''TYPE'', ''FONT'', ''SIZE'', ''MINSIZE'', ''MAXSIZE'',
         ''COLOR'', ''OUTLINECOLOR'', ''SHADOWCOLOR'', ''SHADOWSIZE'',
         ''POSITION'', ''OFFSET'', ''ANGLE'', ''WRAP'', ''BUFFER'',
         ''MINSCALEDENOM'', ''MAXSCALEDENOM'',
         ''STYLE'',
         ''END'']),
      (''WEB'', Some [''IMAGEPATH'', ''IMAGEURL'', ''TEMPLATE'', ''HEADER'', ''FOOTER'', ''ERROR'',
         ''METADATA'', ''END'']),
      (''OUTPUTFORMAT'', Some [''NAME'', ''DRIVER'', ''MIMETYPE'', ''IMAGEMODE'', ''EXTENSION'',
         ''FORMATOPTION'', ''TRANSPARENT'', ''END'', ''METADATA'']),
      (''METADATA'', None),
      (''PROJECTION'', None),
      (''SYMBOL'', Some [''NAME'', ''TYPE'', ''IMAGE'', ''POINTS'', ''FILLED'', ''END'']),
      (''LEGEND'', Some [''STATUS'', ''KEYSIZE'', ''LABEL'', ''TEMPLATE'', ''END'']),
      (''SCALEBAR'', Some [''STATUS'', ''SIZE'', ''INTERVALS'', ''UNITS'', ''COLOR'', ''END'']),
      (''QUERYMAP'', Some [''STATUS'', ''SIZE'', ''COLOR'', ''STYLE'', ''END'']),
      (''REFERENCE'', Some [''STATUS'', ''IMAGE'', ''EXTENT'', ''SIZE'', ''COLOR'', ''END'']),
      (''CLUSTER'', Some [''MAXDISTANCE'', ''REGION'', ''BUFFER'', ''END'']),
      (''GRID'', Some [''MINARCS'', ''MAXARCS'', ''MININTERVAL'', ''MAXINTERVAL'', ''END'']),
      (''COMPOSITE'', Some [''OPACITY'', ''COMPOP'', ''END''])]"

text \<open>\<open>ALLOWED_FIRST_TOKENS[ctx]\<close>: the set of the context, if it has one.\<close>

definition allowed_first_tokens :: "string \<Rightarrow> string list option" where
  "allowed_first_tokens ctx = (case map_of ALLOWED_FIRST_TOKENS ctx of Some (Some s) \<Rightarrow> Some s | _ \<Rightarrow> None)"

text \<open>\<open>GLOBAL_KNOWN\<close>, a set in the order of insertion.\<close>

definition GLOBAL_KNOWN :: "string list" where
  "GLOBAL_KNOWN =
     rev (remdups (rev
       (filter (\<lambda>k. k \<noteq> ''ROOT'') (map fst ALLOWED_FIRST_TOKENS)
        @ concat (map (\<lambda>ctx. case allowed_first_tokens ctx of Some s \<Rightarrow> s | None \<Rightarrow> [])
            [''ROOT'', ''MAP'', ''LAYER'', ''CLASS'', ''STYLE'', ''LABEL'', ''WEB'', ''OUTPUTFORMAT''])
        @ [''END''])))"

definition currentContext :: "frame list \<Rightarrow> string" where
  "currentContext stack =
     (if stack = [] \<or> ftype (last stack) = [] then ''ROOT'' else ftype (last stack))"

definition isAllowedParent :: "string \<Rightarrow> string \<Rightarrow> bool" where
  "isAllowedParent child parent \<longleftrightarrow>
     (case map_of ALLOWED_PARENTS child of None \<Rightarrow> True | Some allowed \<Rightarrow> parent \<in> set allowed)"

definition contextsWhereKeywordIsAllowed :: "string \<Rightarrow> string list" where
  "contextsWhereKeywordIsAllowed kw =
     filter (\<lambda>c. c \<noteq> ''ROOT'')
       (map fst (filter (\<lambda>(ctx, s). case s of None \<Rightarrow> False | Some ks \<Rightarrow> kw \<in> set ks)
          ALLOWED_FIRST_TOKENS))"

text \<open>
  The order of \<open>scored.sort\<close>: by distance, then by \<open>localeCompare\<close> of the candidates. The
  candidates are words of upper-case ASCII letters, which \<open>localeCompare\<close> puts in
  dictionary order.
\<close>

fun str_le :: "string \<Rightarrow> string \<Rightarrow> bool" where
  "str_le [] t = True"
| "str_le (c # s) [] = False"
| "str_le (c # s) (d # t) =
     ((of_char c :: nat) < of_char d \<or> (c = d \<and> str_le s t))"

definition scored_le :: "string \<times> nat \<Rightarrow> string \<times> nat \<Rightarrow> bool" where
  "scored_le x y \<longleftrightarrow> snd x < snd y \<or> (snd x = snd y \<and> str_le (fst x) (fst y))"

fun insert_scored :: "string \<times> nat \<Rightarrow> (string \<times> nat) list \<Rightarrow> (string \<times> nat) list" where
  "insert_scored x [] = [x]"
| "insert_scored x (y # ys) = (if scored_le x y then x # y # ys else y # insert_scored x ys)"

definition sort_scored :: "(string \<times> nat) list \<Rightarrow> (string \<times> nat) list" where
  "sort_scored xs = foldr insert_scored xs []"

definition suggestKeywords :: "detector_options \<Rightarrow> string \<Rightarrow> string list" where
  "suggestKeywords options kw =
     (if \<not> enableSuggestions options \<or> maxSuggestions options \<le> 0 then []
      else
        (let w = toUpperCase kw;
             maxDist = (if length w \<le> 6 then 2 else 3 :: nat);
             scored =
               List.map_filter
                 (\<lambda>cand.
                    if cand = w then None
                    else if (if length cand \<ge> length w then length cand - length w
                             else length w - length cand) > maxDist then None
                    else (let d = levenshtein w cand in if d \<le> maxDist then Some (cand, d) else None))
                 GLOBAL_KNOWN
         in map fst (take (maxSuggestions options) (sort_scored scored))))"

datatype issue_kind =
  NESTING | END_MISMATCH | MISSING_END | MISSING_QUOTE | UNKNOWN_KEYWORD | CONTEXT | METADATA_FORMAT

datatype severity = HARD | SOFT

text \<open>
  The messages are Greek text built from templates; the model keeps one constructor for
  each template with the values it interpolates. \<open>context_hint\<close> is the part \<open>extra\<close> of the
  message of a keyword out of its context.
\<close>

datatype context_hint = AllowedIn "string list" | MaybeIncompatible | PossibleTypo

datatype issue_message =
    MsgOpenQuote char
  | MsgEndWithoutBlock
  | MsgWrongNesting string string "string list"
  | MsgSuspectContext string string
  | MsgMetadataFormat
  | MsgWrongContext string string context_hint
  | MsgUnknownKeyword string "string list"
  | MsgOpenBlocks "(string \<times> nat \<times> nat) list"

record issue =
  issue_lineNo :: nat
  issue_col :: nat
  issue_kind :: issue_kind
  issue_severity :: severity
  issue_message :: issue_message
  issue_excerpt :: string

text \<open>
  The variables of the cascade control: \<open>issues\<close>, \<open>suppressSoftUntilLine\<close> and
  \<open>suppressedSoftCount\<close>.
\<close>

record issue_state =
  issues :: "issue list"
  suppressSoftUntilLine :: nat
  suppressedSoftCount :: nat

definition initial_issue_state :: issue_state where
  "initial_issue_state = \<lparr>issues = [], suppressSoftUntilLine = 0, suppressedSoftCount = 0\<rparr>"

definition addIssue :: "nat \<Rightarrow> issue_state \<Rightarrow> issue \<Rightarrow> issue_state" where
  "addIssue softSuppression st issue =
     (let isSoft = (issue_severity issue = SOFT) in
      if isSoft \<and> issue_lineNo issue \<le> suppressSoftUntilLine st then
        st\<lparr>suppressedSoftCount := suppressedSoftCount st + 1\<rparr>
      else
        (let st1 = st\<lparr>issues := issues st @ [issue]\<rparr> in
         if issue_severity issue = HARD then
           st1\<lparr>suppressSoftUntilLine :=
                 max (suppressSoftUntilLine st1) (issue_lineNo issue + softSuppression)\<rparr>
         else st1))"

text \<open>
  The body of the loop over the lines. Its effects on \<open>stack\<close> and on the lexer state are
  returned together with the issues it passes to \<open>addIssue\<close>, in the order of the calls;
  \<open>addIssue\<close> touches the three variables of the cascade control only.
\<close>

definition detect_line ::
  "detector_options \<Rightarrow> nat \<Rightarrow> string \<Rightarrow> frame list \<times> lexer_state \<Rightarrow>
   (frame list \<times> lexer_state) \<times> issue list" where
  "detect_line options lineNo rawLine s =
     (case s of (stack, state) \<Rightarrow>
      (case tokenizeLine rawLine state (detAllowMultilineQuotes options) of
         (tokens, state', unclosedQuotes) \<Rightarrow>
           if tokens = [] then ((stack, state'), [])
           else
             (let quoteIssues =
                    map (\<lambda>(c, q). \<lparr>issue_lineNo = lineNo, issue_col = c, issue_kind = MISSING_QUOTE,
                                     issue_severity = HARD, issue_message = MsgOpenQuote q,
                                     issue_excerpt = trim rawLine\<rparr>) unclosedQuotes;
                  firstTok = hd tokens;
                  ctx = currentContext stack;
                  mk = (\<lambda>k sev msg. \<lparr>issue_lineNo = lineNo, issue_col = tok_col firstTok, issue_kind = k,
                                     issue_severity = sev, issue_message = msg,
                                     issue_excerpt = trim rawLine\<rparr>)
              in if is_word_tok firstTok then
                   (let kw = toUpperCase (tok_text firstTok) in
                    if kw = ''END'' then
                      (if length stack \<le> 1
                       then ((stack, state'), quoteIssues @ [mk END_MISMATCH HARD MsgEndWithoutBlock])
                       else ((butlast stack, state'), quoteIssues))
                    else if kw \<in> set BLOCKS then
                      (let parent = ctx;
                           nesting =
                             (if \<not> isAllowedParent kw parent
                              then [mk NESTING HARD
                                      (MsgWrongNesting kw parent
                                         (case map_of ALLOWED_PARENTS kw of
                                            None \<Rightarrow> [] | Some ps \<Rightarrow> ps))]
                              else []);
                           context =
                             (case allowed_first_tokens parent of
                                Some allowedSet \<Rightarrow>
                                  if kw \<notin> set allowedSet
                                  then [mk CONTEXT SOFT (MsgSuspectContext kw parent)] else []
                              | None \<Rightarrow> [])
                       in ((stack @ [\<lparr>ftype = kw, fline = lineNo, fcol = tok_col firstTok\<rparr>], state'),
                           quoteIssues @ nesting @ context))
                    else if ctx = ''METADATA'' then
                      (if length tokens \<ge> 2 then
                         (let kTok = tokens ! 0;
                              vTok = tokens ! 1;
                              kOk = (\<not> is_word_tok kTok \<or>
                                     (is_word_tok kTok \<and>
                                      \<not> looksUpperKeyword (toUpperCase (tok_text kTok))));
                              vOk = (\<not> is_word_tok vTok \<or> is_word_tok vTok)
                          in if \<not> kOk \<or> \<not> vOk
                             then ((stack, state'),
                                   quoteIssues @
                                   [\<lparr>issue_lineNo = lineNo, issue_col = tok_col kTok, issue_kind = METADATA_FORMAT,
                                     issue_severity = SOFT, issue_message = MsgMetadataFormat,
                                     issue_excerpt = trim rawLine\<rparr>])
                             else ((stack, state'), quoteIssues))
                       else ((stack, state'), quoteIssues))
                    else if ctx = ''PROJECTION'' then ((stack, state'), quoteIssues)
                    else
                      (let context =
                             (case allowed_first_tokens ctx of
                                Some allowedHere \<Rightarrow>
                                  if looksUpperKeyword kw \<and> kw \<notin> set allowedHere then
                                    (let isKnown = (kw \<in> set GLOBAL_KNOWN);
                                         allowedIn =
                                           (if isKnown then contextsWhereKeywordIsAllowed kw else []);
                                         extra =
                                           (if isKnown then
                                              (if allowedIn \<noteq> [] then AllowedIn (take 4 allowedIn)
                                               else MaybeIncompatible)
                                            else PossibleTypo)
                                     in [mk CONTEXT SOFT (MsgWrongContext kw ctx extra)])
                                  else []
                              | None \<Rightarrow> []);
                           unknown =
                             (if looksUpperKeyword kw \<and> kw \<notin> set GLOBAL_KNOWN
                              then [mk UNKNOWN_KEYWORD SOFT
                                      (MsgUnknownKeyword kw (suggestKeywords options kw))]
                              else [])
                       in ((stack, state'), quoteIssues @ context @ unknown)))
                 else ((stack, state'), quoteIssues))))"

text \<open>
  The loop over the lines: the final stack and lexer state, and all the issues passed to
  \<open>addIssue\<close>, in order.
\<close>

fun detect_lines ::
  "detector_options \<Rightarrow> nat \<Rightarrow> string list \<Rightarrow> frame list \<times> lexer_state \<Rightarrow>
   (frame list \<times> lexer_state) \<times> issue list" where
  "detect_lines options idx [] s = (s, [])"
| "detect_lines options idx (rawLine # rest) s =
     (case detect_line options (idx + 1) rawLine s of
        (s', calls) \<Rightarrow>
          (case detect_lines options (idx + 1) rest s' of
             (s'', calls') \<Rightarrow> (s'', calls @ calls')))"

text \<open>\<open>text.replace(/\r\n/g, '\n')\<close> and \<open>text.replace(/\r/g, '\n')\<close>.\<close>

fun replace_crlf :: "string \<Rightarrow> string" where
  "replace_crlf (c # d # cs) =
     (if c = CR \<and> d = LF then LF # replace_crlf cs else c # replace_crlf (d # cs))"
| "replace_crlf cs = cs"

definition replace_cr :: "string \<Rightarrow> string" where
  "replace_cr s = map (\<lambda>c. if c = CR then LF else c) s"

definition detector_lines :: "string \<Rightarrow> string list" where
  "detector_lines mapfileText = split_on LF (replace_cr (replace_crlf mapfileText))"

text \<open>
  All the calls of \<open>addIssue\<close> of a run, in order: those of the loop and, when blocks are
  left open at EOF, the \<open>MISSING_END\<close> issue. The stack starts with the \<open>ROOT\<close> frame.
\<close>

definition addIssue_calls :: "string \<Rightarrow> detector_options \<Rightarrow> issue list" where
  "addIssue_calls mapfileText options =
     (let lines = detector_lines mapfileText in
      case detect_lines options 0 lines
             ([\<lparr>ftype = ''ROOT'', fline = 0, fcol = 0\<rparr>], initial_lexer_state) of
        ((stack, state), calls) \<Rightarrow>
          calls @
          (if length stack > 1 then
             [\<lparr>issue_lineNo = length lines, issue_col = 0, issue_kind = MISSING_END,
               issue_severity = HARD,
               issue_message = MsgOpenBlocks (map (\<lambda>b. (ftype b, fline b, fcol b)) (tl stack)),
               issue_excerpt = []\<rparr>]
           else []))"

text \<open>
  The report is a list of lines joined by LF. As for the messages, each template of a
  line is a constructor. \<open>RIssue\<close> is the line of an issue (its column is printed when it
  is not 0) and \<open>RSuppressed n\<close> is the summary line of the cascade control.
\<close>

datatype report_line =
    RNoProblems
  | RHeuristicNote
  | RFound nat
  | RBlank
  | RHardHeading nat
  | RSoftHeading nat
  | RKindHeading issue_kind nat
  | RIssue nat nat issue_message
  | RExcerpt string
  | RSuppressed nat
  | RNote

definition kind_order :: "issue_kind list" where
  "kind_order = [NESTING, END_MISMATCH, MISSING_END, MISSING_QUOTE, UNKNOWN_KEYWORD, CONTEXT,
     METADATA_FORMAT]"

definition issue_lines :: "issue \<Rightarrow> report_line list" where
  "issue_lines it =
     RIssue (issue_lineNo it) (issue_col it) (issue_message it)
     # (if issue_excerpt it \<noteq> [] then [RExcerpt (issue_excerpt it)] else [])"

definition grouped_lines :: "issue list \<Rightarrow> report_line list" where
  "grouped_lines arr =
     concat (map (\<lambda>k. let a = filter (\<lambda>it. issue_kind it = k) arr
                      in if a = [] then []
                         else [RBlank, RKindHeading k (length a)] @ concat (map issue_lines a))
               kind_order)"

definition build_report :: "detector_options \<Rightarrow> issue_state \<Rightarrow> report_line list" where
  "build_report options st =
     (if issues st = [] then
        RNoProblems # (if includeNotes options then [RHeuristicNote] else [])
      else
        (let hard = filter (\<lambda>i. issue_severity i = HARD) (issues st);
             soft = filter (\<lambda>i. issue_severity i = SOFT) (issues st)
         in [RFound (length (issues st))]
            @ (if hard \<noteq> [] then [RBlank, RHardHeading (length hard)] @ grouped_lines hard else [])
            @ (if soft \<noteq> [] then [RBlank, RSoftHeading (length soft)] @ grouped_lines soft else [])
            @ (if suppressedSoftCount st > 0 then [RBlank, RSuppressed (suppressedSoftCount st)]
               else [])
            @ (if includeNotes options then [RBlank, RNote] else [])))"

definition final_issue_state :: "string \<Rightarrow> detector_options \<Rightarrow> issue_state" where
  "final_issue_state mapfileText options =
     foldl (addIssue (softSuppressionLines options)) initial_issue_state
       (addIssue_calls mapfileText options)"

definition syntaxisErrorDetector :: "string \<Rightarrow> detector_options \<Rightarrow> report_line list" where
  "syntaxisErrorDetector mapfileText options =
     build_report options (final_issue_state mapfileText options)"

text \<open>
  The cascade rule of the specification: the call \<open>j\<close> of \<open>addIssue\<close> is suppressed when it
  is a SOFT issue and an earlier call \<open>i\<close> recorded a HARD issue at a line \<open>L\<close> with the line
  of the SOFT issue at most \<open>L + n\<close>.
\<close>

definition suppressed :: "nat \<Rightarrow> issue list \<Rightarrow> nat \<Rightarrow> bool" where
  "suppressed n calls j \<longleftrightarrow>
     issue_severity (calls ! j) = SOFT \<and>
     list_ex (\<lambda>i. issue_severity (calls ! i) = HARD \<and>
                  issue_lineNo (calls ! j) \<le> issue_lineNo (calls ! i) + n) [0..<j]"

fun is_issue_line :: "report_line \<Rightarrow> bool" where
  "is_issue_line (RIssue l c m) = True"
| "is_issue_line r = False"

text \<open>The line of the report that prints an issue.\<close>

definition issue_line_of :: "issue \<Rightarrow> report_line" where
  "issue_line_of it = RIssue (issue_lineNo it) (issue_col it) (issue_message it)"

section \<open>Properties of the formatter\<close>

lemma trimStart_hd: "trimStart s \<noteq> [] \<Longrightarrow> \<not> is_ws (hd (trimStart s))"
  unfolding trimStart_def by (simp add: hd_dropWhile)

lemma trimEnd_last: "trimEnd s \<noteq> [] \<Longrightarrow> \<not> is_ws (last (trimEnd s))"
  unfolding trimEnd_def by (simp add: last_rev hd_dropWhile)

lemma trimEnd_hd: "trimEnd s \<noteq> [] \<Longrightarrow> hd (trimEnd s) = hd s"
proof -
  assume a: "trimEnd s \<noteq> []"
  have "\<exists>zs. s = trimEnd s @ zs"
    unfolding trimEnd_def
    by (metis rev_append rev_rev_ident takeWhile_dropWhile_id)
  then obtain zs where "s = trimEnd s @ zs" ..
  then have "hd s = hd (trimEnd s @ zs)" by simp
  with a show ?thesis by simp
qed

lemma trim_hd: "trim s \<noteq> [] \<Longrightarrow> \<not> is_ws (hd (trim s))"
  unfolding trim_def using trimEnd_hd [of "trimStart s"] trimStart_hd [of s]
  by (metis trimEnd_def dropWhile.simps(1) rev.simps(1))

lemma trim_last: "trim s \<noteq> [] \<Longrightarrow> \<not> is_ws (last (trim s))"
  unfolding trim_def by (rule trimEnd_last)

lemma trim_fix:
  assumes "t \<noteq> []" "\<not> is_ws (hd t)" "\<not> is_ws (last t)"
  shows "trim t = t"
proof -
  from assms have 1: "trimStart t = t"
    unfolding trimStart_def by (cases t) auto
  from assms have "dropWhile is_ws (rev t) = rev t"
    by (cases "rev t") (auto simp: last_rev [symmetric] hd_rev)
  then have "trimEnd t = t" unfolding trimEnd_def by simp
  with 1 show ?thesis unfolding trim_def by simp
qed

lemma trim_ws_append:
  assumes "list_all is_ws p" "t \<noteq> []" "\<not> is_ws (hd t)" "\<not> is_ws (last t)"
  shows "trim (p @ t) = t"
proof -
  from assms have "dropWhile is_ws (p @ t) = dropWhile is_ws t"
    by (simp add: dropWhile_append list_all_iff)
  then have "trim (p @ t) = trim t"
    unfolding trim_def trimStart_def by simp
  with trim_fix [OF assms(2-4)] show ?thesis by simp
qed

lemma trim_Nil: "trim [] = []"
  by (simp add: trim_def trimStart_def trimEnd_def)

lemma trim_idem: "trim (trim s) = trim s"
proof (cases "trim s = []")
  case True
  then show ?thesis by (simp add: trim_Nil)
next
  case False
  then show ?thesis using trim_fix trim_hd trim_last by blast
qed

lemma indent_ws: "list_all is_ws (indent n l)"
  unfolding indent_def IND_def
  by (induction l) (auto simp: list_all_iff is_ws_def)

text \<open>The line pushed to out has the trimmed content of the raw line.\<close>
lemma format_line_out:
  "snd (format_line n st raw) = (if trim raw = [] then [] else
      indent n (length (if endLine (trim raw) \<noteq> None \<and> \<not> startsWith (trim raw) ''#'' then fst (format_line n st raw) else st)) @ trim raw)"
  unfolding format_line_def
  by (auto simp: Let_def split: option.splits)

lemma format_line_trim_out: "trim (snd (format_line n st raw)) = trim raw"
proof (cases "trim raw = []")
  case True
  then show ?thesis by (simp add: format_line_out trim_Nil)
next
  case False
  then show ?thesis
    by (simp only: format_line_out if_False trim_ws_append [OF indent_ws False trim_hd [OF False] trim_last [OF False]])
qed

lemma format_line_cong: "trim a = trim b \<Longrightarrow> format_line n st a = format_line n st b"
  unfolding format_line_def by simp

lemma format_lines_idem:
  "format_lines n st (format_lines n st raws) = format_lines n st raws"
proof (induction raws arbitrary: st)
  case Nil
  show ?case by simp
next
  case (Cons raw raws)
  obtain st' l where fl: "format_line n st raw = (st', l)" by (cases "format_line n st raw")
  then have "trim l = trim raw" using format_line_trim_out [of n st raw] by simp
  then have "format_line n st l = (st', l)" using format_line_cong fl by metis
  with fl Cons.IH [of st'] show ?case by simp
qed

lemma split_lines_ne: "split_lines s \<noteq> []"
  by (induction s rule: split_lines.induct) (auto split: list.splits)

lemma split_lines_no_LF: "l \<in> set (split_lines s) \<Longrightarrow> LF \<notin> set l"
proof (induction s arbitrary: l rule: split_lines.induct)
  case 1
  then show ?case by simp
next
  case (2 c cs)
  then show ?case
    by (auto split: if_splits list.splits simp: split_lines_ne)
qed

text \<open>A line without LF that does not end in CR, followed by LF and more text.\<close>
lemma split_lines_append:
  "LF \<notin> set l \<Longrightarrow> (l \<noteq> [] \<Longrightarrow> last l \<noteq> CR) \<Longrightarrow> split_lines (l @ LF # s) = l # split_lines s"
proof (induction l)
  case Nil
  then show ?case by simp
next
  case (Cons c l)
  then show ?case
    by (cases l) (auto simp: LF_def CR_def split: list.splits)
qed

lemma split_lines_single:
  "LF \<notin> set l \<Longrightarrow> split_lines l = [l]"
proof (induction l)
  case Nil
  then show ?case by simp
next
  case (Cons c l)
  then show ?case by (cases l) (auto split: list.splits)
qed

lemma split_join:
  "ls \<noteq> [] \<Longrightarrow> list_all (\<lambda>l. LF \<notin> set l \<and> (l \<noteq> [] \<longrightarrow> last l \<noteq> CR)) ls \<Longrightarrow>
   split_lines (join [LF] ls) = ls"
proof (induction ls)
  case Nil
  then show ?case by simp
next
  case (Cons l ls)
  show ?case
  proof (cases ls)
    case Nil
    with Cons.prems show ?thesis by (simp add: split_lines_single)
  next
    case (Cons a as)
    with Cons.prems Cons.IH show ?thesis by (simp add: split_lines_append)
  qed
qed

lemma replace_tabs_id: "TAB \<notin> set s \<Longrightarrow> replace_tabs s = s"
  unfolding replace_tabs_def by (induction s) auto

lemma replace_tabs_no_TAB: "TAB \<notin> set (replace_tabs s)"
  unfolding replace_tabs_def by (induction s) (auto simp: TAB_def)

lemma split_lines_set: "l \<in> set (split_lines s) \<Longrightarrow> x \<in> set l \<Longrightarrow> x \<in> set s"
proof (induction s arbitrary: l rule: split_lines.induct)
  case 1
  then show ?case by simp
next
  case (2 c cs)
  show ?case
  proof (cases "c = LF")
    case True
    with 2 show ?thesis by auto
  next
    case nlf: False
    show ?thesis
    proof (cases "c = CR \<and> cs \<noteq> [] \<and> hd cs = LF")
      case True
      with nlf 2 have "x \<in> set (tl cs)" by auto
      with True show ?thesis by (auto dest: list.set_sel(2))
    next
      case False
      obtain l' ls where sp: "split_lines cs = l' # ls"
        using split_lines_ne [of cs] by (cases "split_lines cs") auto
      with nlf False "2.prems" have "l = c # l' \<or> l \<in> set ls" by auto
      then show ?thesis
      proof
        assume "l = c # l'"
        with "2.prems" have "x = c \<or> x \<in> set l'" by auto
        moreover have "x \<in> set l' \<Longrightarrow> x \<in> set cs"
          using "2.IH"(3) [OF nlf False, of l'] sp by simp
        ultimately show ?thesis by auto
      next
        assume "l \<in> set ls"
        then have "x \<in> set cs"
          using "2.IH"(3) [OF nlf False, of l] sp "2.prems" by simp
        then show ?thesis by simp
      qed
    qed
  qed
qed

lemma join_set: "set (join sep ls) \<subseteq> set sep \<union> \<Union> (set ` set ls)"
  by (induction sep ls rule: join.induct) auto

lemma trim_set: "set (trim s) \<subseteq> set s"
  unfolding trim_def trimStart_def trimEnd_def
  by (metis set_dropWhileD set_rev subsetI)

lemma indent_set: "set (indent n l) \<subseteq> {CHR '' ''}"
  unfolding indent_def IND_def by (induction l) auto

lemma format_line_set: "set (snd (format_line n st raw)) \<subseteq> {CHR '' ''} \<union> set raw"
proof (cases "trim raw = []")
  case True
  then show ?thesis by (simp add: format_line_out)
next
  case False
  then obtain k where "snd (format_line n st raw) = indent n k @ trim raw"
    by (simp add: format_line_out)
  then show ?thesis using trim_set [of raw] indent_set [of n k] by auto
qed

lemma format_line_last:
  "snd (format_line n st raw) \<noteq> [] \<Longrightarrow> last (snd (format_line n st raw)) \<noteq> CR"
  using trim_last [of raw]
  by (auto simp: format_line_out is_ws_def CR_def split: if_splits)

lemma format_lines_length: "length (format_lines n st raws) = length raws"
  by (induction raws arbitrary: st) (auto split: prod.splits)

lemma format_lines_props:
  "list_all (\<lambda>l. c \<notin> set l) raws \<Longrightarrow> c \<noteq> CHR '' '' \<Longrightarrow>
   list_all (\<lambda>l. c \<notin> set l) (format_lines n st raws)"
proof (induction raws arbitrary: st)
  case Nil
  then show ?case by simp
next
  case (Cons raw raws)
  obtain st' l where fl: "format_line n st raw = (st', l)" by (cases "format_line n st raw")
  with format_line_set [of n st raw] Cons.prems have "c \<notin> set l" by auto
  with fl Cons show ?case by simp
qed

lemma format_lines_last:
  "list_all (\<lambda>l. l \<noteq> [] \<longrightarrow> last l \<noteq> CR) (format_lines n st raws)"
proof (induction raws arbitrary: st)
  case Nil
  then show ?case by simp
next
  case (Cons raw raws)
  obtain st' l where fl: "format_line n st raw = (st', l)" by (cases "format_line n st raw")
  with format_line_last [of n st raw] have "l \<noteq> [] \<longrightarrow> last l \<noteq> CR" by auto
  with fl Cons show ?case by simp
qed

lemma split_lines_formatMapfile:
  "split_lines (formatMapfile src n) = format_lines n [] (split_lines (replace_tabs src))"
proof -
  let ?raws = "split_lines (replace_tabs src)"
  let ?out = "format_lines n [] ?raws"
  have ne: "?out \<noteq> []"
    using format_lines_length [of n "[]" ?raws] split_lines_ne [of "replace_tabs src"]
    by (metis length_0_conv)
  have "list_all (\<lambda>l. LF \<notin> set l) ?raws"
    by (simp add: list_all_iff split_lines_no_LF)
  then have 1: "list_all (\<lambda>l. LF \<notin> set l) ?out"
    by (rule format_lines_props) (simp add: LF_def)
  have 2: "list_all (\<lambda>l. l \<noteq> [] \<longrightarrow> last l \<noteq> CR) ?out"
    by (rule format_lines_last)
  from 1 2 have "list_all (\<lambda>l. LF \<notin> set l \<and> (l \<noteq> [] \<longrightarrow> last l \<noteq> CR)) ?out"
    by (simp add: list_all_iff)
  with ne show ?thesis unfolding formatMapfile_def by (simp add: split_join)
qed

lemma formatMapfile_no_TAB: "TAB \<notin> set (formatMapfile src n)"
proof -
  let ?raws = "split_lines (replace_tabs src)"
  have "list_all (\<lambda>l. TAB \<notin> set l) ?raws"
    using split_lines_set [of _ "replace_tabs src" TAB] replace_tabs_no_TAB [of src]
    by (auto simp: list_all_iff)
  then have "list_all (\<lambda>l. TAB \<notin> set l) (format_lines n [] ?raws)"
    by (rule format_lines_props) (simp add: TAB_def)
  then show ?thesis
    unfolding formatMapfile_def using join_set [of "[LF]" "format_lines n [] ?raws"]
    by (auto simp: list_all_iff LF_def TAB_def)
qed

text \<open>
  Claim C1 (formatter idempotence): for every input string and every indent width,
  formatting the formatted text gives the formatted text again.
\<close>

theorem formatMapfile_idempotent:
  "formatMapfile (formatMapfile src n) n = formatMapfile src n"
proof -
  have "replace_tabs (formatMapfile src n) = formatMapfile src n"
    by (rule replace_tabs_id) (rule formatMapfile_no_TAB)
  then have "formatMapfile (formatMapfile src n) n =
      join [LF] (format_lines n [] (split_lines (formatMapfile src n)))"
    by (simp add: formatMapfile_def)
  also have "\<dots> = join [LF] (format_lines n [] (format_lines n [] (split_lines (replace_tabs src))))"
    by (simp only: split_lines_formatMapfile)
  also have "\<dots> = formatMapfile src n"
    by (simp only: format_lines_idem formatMapfile_def)
  finally show ?thesis .
qed

lemma indent_replicate:
  "indent n d = replicate (d * nat (if n > 0 then n else 4)) CHR '' ''"
  unfolding indent_def IND_def
  by (induction d) (auto simp: replicate_add)

lemma format_lines_frame:
  "list_all2 (\<lambda>out raw. \<exists>d. out = (if trim raw = [] then [] else indent n d @ trim raw))
     (format_lines n st raws) raws"
proof (induction raws arbitrary: st)
  case Nil
  show ?case by simp
next
  case (Cons raw raws)
  obtain st' l where fl: "format_line n st raw = (st', l)" by (cases "format_line n st raw")
  have "\<exists>d. snd (format_line n st raw) = (if trim raw = [] then [] else indent n d @ trim raw)"
    by (cases "trim raw = []") (auto simp: format_line_out)
  with fl Cons.IH [of st'] show ?case by simp
qed

lemma format_lines_trim: "map trim (format_lines n st raws) = map trim raws"
proof (induction raws arbitrary: st)
  case Nil
  show ?case by simp
next
  case (Cons raw raws)
  obtain st' l where fl: "format_line n st raw = (st', l)" by (cases "format_line n st raw")
  with format_line_trim_out [of n st raw] Cons.IH [of st'] show ?case by simp
qed

text \<open>
  Claim C9 as stated (the formatter changes only the leading whitespace of each line)
  fails: trailing whitespace is removed, a tab inside a line becomes two spaces, and a
  CR LF line ending becomes LF.
\<close>

theorem formatMapfile_frame_counterexample:
  "formatMapfile ''NAME x  '' 4 = ''NAME x'' \<and>
   dropWhile is_ws (formatMapfile ''NAME x  '' 4) \<noteq> dropWhile is_ws ''NAME x  '' \<and>
   formatMapfile (''SIZE'' @ [TAB] @ ''1'') 4 = ''SIZE  1'' \<and>
   formatMapfile (''MAP'' @ [CR, LF] @ ''END'') 4 = ''MAP'' @ [LF] @ ''END''"
  by code_simp

text \<open>
  Claim C9, amended: the output has one line for every line of the input after the
  replacement of tabs by two spaces (lines split at LF or CR LF). A blank line becomes
  the empty line; every other line becomes a run of spaces, a multiple of the indent
  width, followed by the line without its leading and trailing whitespace. The output
  lines are joined by LF.
\<close>

theorem formatMapfile_frame:
  "list_all2
     (\<lambda>out raw. \<exists>depth. out =
        (if trim raw = [] then []
         else replicate (depth * nat (if n > 0 then n else 4)) CHR '' '' @ trim raw))
     (split_lines (formatMapfile src n)) (split_lines (replace_tabs src))
   \<and> formatMapfile src n = join [LF] (split_lines (formatMapfile src n))"
proof -
  have "formatMapfile src n = join [LF] (split_lines (formatMapfile src n))"
    unfolding split_lines_formatMapfile unfolding formatMapfile_def ..
  moreover have "list_all2
     (\<lambda>out raw. \<exists>depth. out =
        (if trim raw = [] then []
         else replicate (depth * nat (if n > 0 then n else 4)) CHR '' '' @ trim raw))
     (split_lines (formatMapfile src n)) (split_lines (replace_tabs src))"
    using format_lines_frame [of n "[]" "split_lines (replace_tabs src)"]
    by (simp only: split_lines_formatMapfile indent_replicate)
  ultimately show ?thesis by blast
qed

section \<open>Properties of the balance detector\<close>













































section \<open>Properties of the WFS-capability classifier\<close>

lemma subseq_match_append: "subseq_match ps xs \<Longrightarrow> subseq_match ps (xs @ ys)"
  by (induction ps xs rule: subseq_match.induct) (auto split: if_splits)






lemma wfs_inv_mono_map:
  "list_all (\<lambda>(name, v). name \<noteq> [] \<and> subseq_match ps pre) m \<Longrightarrow>
   list_all (\<lambda>(name, v). name \<noteq> [] \<and> subseq_match ps (pre @ ys)) m"
  by (auto simp: list_all_iff subseq_match_append)












section \<open>Properties of the syntax and context checker\<close>

lemma suppressed_iff:
  "suppressed n calls j \<longleftrightarrow>
   issue_severity (calls ! j) = SOFT \<and>
   (\<exists>i<j. issue_severity (calls ! i) = HARD \<and>
          issue_lineNo (calls ! j) \<le> issue_lineNo (calls ! i) + n)"
  by (auto simp: suppressed_def list_ex_iff)

lemma suppressed_append_lt:
  assumes "j < length calls"
  shows "suppressed n (calls @ [y]) j = suppressed n calls j"
proof -
  have "(calls @ [y]) ! i = calls ! i" if "i \<le> j" for i
    using that assms by (simp add: nth_append)
  then show ?thesis
    unfolding suppressed_iff by auto
qed

lemma kept_append:
  "map ((!) (calls @ [y])) (filter (\<lambda>j. \<not> suppressed n (calls @ [y]) j) [0..<length (calls @ [y])]) =
   map ((!) calls) (filter (\<lambda>j. \<not> suppressed n calls j) [0..<length calls]) @
   (if suppressed n (calls @ [y]) (length calls) then [] else [y])"
proof -
  have k: "filter (\<lambda>j. \<not> suppressed n (calls @ [y]) j) [0..<length calls] =
      filter (\<lambda>j. \<not> suppressed n calls j) [0..<length calls]"
    by (rule filter_cong) (simp_all add: suppressed_append_lt)
  have m: "map ((!) (calls @ [y])) (filter (\<lambda>j. \<not> suppressed n calls j) [0..<length calls]) =
      map ((!) calls) (filter (\<lambda>j. \<not> suppressed n calls j) [0..<length calls])"
    by (rule map_cong) (simp_all add: nth_append)
  have u: "[0..<length (calls @ [y])] = [0..<length calls] @ [length calls]" by simp
  show ?thesis unfolding u filter_append map_append k m by simp
qed

lemma dropped_append:
  "length (filter (suppressed n (calls @ [y])) [0..<length (calls @ [y])]) =
   length (filter (suppressed n calls) [0..<length calls]) +
   (if suppressed n (calls @ [y]) (length calls) then 1 else 0)"
proof -
  have s: "filter (suppressed n (calls @ [y])) [0..<length calls] =
      filter (suppressed n calls) [0..<length calls]"
    by (rule filter_cong) (simp_all add: suppressed_append_lt)
  have u: "[0..<length (calls @ [y])] = [0..<length calls] @ [length calls]" by simp
  show ?thesis unfolding u filter_append s by simp
qed

lemma cascade_fold:
  assumes "list_all (\<lambda>c. 1 \<le> issue_lineNo c) calls"
  shows "issues (foldl (addIssue n) initial_issue_state calls) =
           map ((!) calls) (filter (\<lambda>j. \<not> suppressed n calls j) [0..<length calls]) \<and>
         suppressedSoftCount (foldl (addIssue n) initial_issue_state calls) =
           length (filter (suppressed n calls) [0..<length calls]) \<and>
         (\<forall>x\<ge>1. x \<le> suppressSoftUntilLine (foldl (addIssue n) initial_issue_state calls) \<longleftrightarrow>
            (\<exists>i<length calls. issue_severity (calls ! i) = HARD \<and>
               x \<le> issue_lineNo (calls ! i) + n))"
  using assms
proof (induction calls rule: rev_induct)
  case Nil
  show ?case by (simp add: initial_issue_state_def)
next
  case (snoc y calls)
  let ?st = "foldl (addIssue n) initial_issue_state calls"
  from snoc.prems have pos: "1 \<le> issue_lineNo y" and rest: "list_all (\<lambda>c. 1 \<le> issue_lineNo c) calls"
    by simp_all
  from snoc.IH [OF rest] have
    I1: "issues ?st = map ((!) calls) (filter (\<lambda>j. \<not> suppressed n calls j) [0..<length calls])" and
    I2: "suppressedSoftCount ?st = length (filter (suppressed n calls) [0..<length calls])" and
    I3: "\<And>x. 1 \<le> x \<Longrightarrow> x \<le> suppressSoftUntilLine ?st \<longleftrightarrow>
            (\<exists>i<length calls. issue_severity (calls ! i) = HARD \<and>
               x \<le> issue_lineNo (calls ! i) + n)"
    by blast+
  have nth: "(calls @ [y]) ! i = calls ! i" if "i < length calls" for i
    using that by (simp add: nth_append)
  have last: "suppressed n (calls @ [y]) (length calls) \<longleftrightarrow>
      issue_severity y = SOFT \<and> issue_lineNo y \<le> suppressSoftUntilLine ?st"
    unfolding suppressed_iff I3 [OF pos] using nth by auto
  have ex: "(\<exists>i<length (calls @ [y]). issue_severity ((calls @ [y]) ! i) = HARD \<and>
               x \<le> issue_lineNo ((calls @ [y]) ! i) + n) \<longleftrightarrow>
      (\<exists>i<length calls. issue_severity (calls ! i) = HARD \<and> x \<le> issue_lineNo (calls ! i) + n) \<or>
      (issue_severity y = HARD \<and> x \<le> issue_lineNo y + n)" for x
  proof -
    have "(\<exists>i<Suc (length calls). P i) \<longleftrightarrow> (\<exists>i<length calls. P i) \<or> P (length calls)" for P
      by (auto simp: less_Suc_eq)
    then show ?thesis using nth by auto
  qed
  have st: "foldl (addIssue n) initial_issue_state (calls @ [y]) = addIssue n ?st y" by simp
  show ?case
  proof (cases "issue_severity y = SOFT \<and> issue_lineNo y \<le> suppressSoftUntilLine ?st")
    case True
    then have a: "addIssue n ?st y = ?st\<lparr>suppressedSoftCount := suppressedSoftCount ?st + 1\<rparr>"
      by (simp add: addIssue_def)
    from True last have l: "suppressed n (calls @ [y]) (length calls)" by simp
    have 1: "issues (addIssue n ?st y) =
        map ((!) (calls @ [y])) (filter (\<lambda>j. \<not> suppressed n (calls @ [y]) j) [0..<length (calls @ [y])])"
      unfolding kept_append a using l I1 by simp
    have 2: "suppressedSoftCount (addIssue n ?st y) =
        length (filter (suppressed n (calls @ [y])) [0..<length (calls @ [y])])"
      unfolding dropped_append a using l I2 by simp
    have 3: "\<forall>x\<ge>1. x \<le> suppressSoftUntilLine (addIssue n ?st y) \<longleftrightarrow>
            (\<exists>i<length (calls @ [y]). issue_severity ((calls @ [y]) ! i) = HARD \<and>
               x \<le> issue_lineNo ((calls @ [y]) ! i) + n)"
      unfolding ex a using True I3 by simp
    from 1 2 3 show ?thesis unfolding st by blast
  next
    case False
    with last have l: "\<not> suppressed n (calls @ [y]) (length calls)" by simp
    show ?thesis
    proof (cases "issue_severity y = HARD")
      case True
      then have a: "addIssue n ?st y =
          ?st\<lparr>issues := issues ?st @ [y],
               suppressSoftUntilLine := max (suppressSoftUntilLine ?st) (issue_lineNo y + n)\<rparr>"
        by (simp add: addIssue_def Let_def)
      have 1: "issues (addIssue n ?st y) =
          map ((!) (calls @ [y])) (filter (\<lambda>j. \<not> suppressed n (calls @ [y]) j) [0..<length (calls @ [y])])"
        unfolding kept_append a using l I1 by simp
      have 2: "suppressedSoftCount (addIssue n ?st y) =
          length (filter (suppressed n (calls @ [y])) [0..<length (calls @ [y])])"
        unfolding dropped_append a using l I2 by simp
      have 3: "\<forall>x\<ge>1. x \<le> suppressSoftUntilLine (addIssue n ?st y) \<longleftrightarrow>
              (\<exists>i<length (calls @ [y]). issue_severity ((calls @ [y]) ! i) = HARD \<and>
                 x \<le> issue_lineNo ((calls @ [y]) ! i) + n)"
        unfolding ex a using True I3 by (simp add: le_max_iff_disj)
      from 1 2 3 show ?thesis unfolding st by blast
    next
      case notHard: False
      then have soft: "issue_severity y = SOFT" by (cases "issue_severity y") auto
      with False have a: "addIssue n ?st y = ?st\<lparr>issues := issues ?st @ [y]\<rparr>"
        by (simp add: addIssue_def Let_def)
      have 1: "issues (addIssue n ?st y) =
          map ((!) (calls @ [y])) (filter (\<lambda>j. \<not> suppressed n (calls @ [y]) j) [0..<length (calls @ [y])])"
        unfolding kept_append a using l I1 by simp
      have 2: "suppressedSoftCount (addIssue n ?st y) =
          length (filter (suppressed n (calls @ [y])) [0..<length (calls @ [y])])"
        unfolding dropped_append a using l I2 by simp
      have 3: "\<forall>x\<ge>1. x \<le> suppressSoftUntilLine (addIssue n ?st y) \<longleftrightarrow>
              (\<exists>i<length (calls @ [y]). issue_severity ((calls @ [y]) ! i) = HARD \<and>
                 x \<le> issue_lineNo ((calls @ [y]) ! i) + n)"
        unfolding ex a using notHard I3 by simp
      from 1 2 3 show ?thesis unfolding st by blast
    qed
  qed
qed

lemma detect_line_lineNo:
  "list_all (\<lambda>c. issue_lineNo c = n) (snd (detect_line options n rawLine s))"
proof -
  obtain stack state where s: "s = (stack, state)" by (cases s)
  obtain tokens st' uq where tk:
    "tokenizeLine rawLine state (detAllowMultilineQuotes options) = (tokens, st', uq)"
    by (metis surj_pair)
  have q: "list_all (\<lambda>c. issue_lineNo c = n)
      (map (\<lambda>(c, q). \<lparr>issue_lineNo = n, issue_col = c, issue_kind = MISSING_QUOTE,
                       issue_severity = HARD, issue_message = MsgOpenQuote q,
                       issue_excerpt = trim rawLine\<rparr>) uq)"
    by (induction uq) auto
  show ?thesis
  proof (cases "tokens = []")
    case True
    then show ?thesis by (simp add: detect_line_def s tk)
  next
    case ne: False
    show ?thesis
    proof (cases "is_word_tok (hd tokens)")
      case False
      with ne q show ?thesis by (simp add: detect_line_def s tk Let_def)
    next
      case w: True
      show ?thesis
      proof (cases "toUpperCase (tok_text (hd tokens)) = ''END''")
        case True
        with ne w q show ?thesis by (simp add: detect_line_def s tk Let_def)
      next
        case notend: False
        show ?thesis
        proof (cases "toUpperCase (tok_text (hd tokens)) \<in> set BLOCKS")
          case True
          with ne w notend q show ?thesis
            by (simp add: detect_line_def s tk Let_def split: option.splits)
        next
          case nb: False
          show ?thesis
          proof (cases "currentContext stack = ''METADATA''")
            case True
            with ne w notend nb q show ?thesis
              by (simp add: detect_line_def s tk Let_def)
          next
            case nm: False
            show ?thesis
            proof (cases "currentContext stack = ''PROJECTION''")
              case True
              with ne w notend nb nm q show ?thesis
                by (simp add: detect_line_def s tk Let_def)
            next
              case False
              with ne w notend nb nm q show ?thesis
                by (simp add: detect_line_def s tk Let_def split: option.splits)
            qed
          qed
        qed
      qed
    qed
  qed
qed

lemma detect_lines_lineNo:
  "list_all (\<lambda>c. idx < issue_lineNo c) (snd (detect_lines options idx lines s))"
proof (induction lines arbitrary: idx s)
  case Nil
  show ?case by simp
next
  case (Cons l ls)
  obtain s' calls where d: "detect_line options (idx + 1) l s = (s', calls)"
    by (cases "detect_line options (idx + 1) l s")
  obtain s'' calls' where e: "detect_lines options (idx + 1) ls s' = (s'', calls')"
    by (cases "detect_lines options (idx + 1) ls s'")
  from detect_line_lineNo [of "idx + 1" options l s] d
  have 1: "list_all (\<lambda>c. idx < issue_lineNo c) calls" by (auto simp: list_all_iff)
  from Cons.IH [of "idx + 1" s'] e
  have 2: "list_all (\<lambda>c. idx < issue_lineNo c) calls'" by (auto simp: list_all_iff)
  from 1 2 d e show ?case by simp
qed

lemma split_on_ne: "split_on d s \<noteq> []"
  by (induction s) (auto split: list.splits)

lemma addIssue_calls_pos:
  "list_all (\<lambda>c. 1 \<le> issue_lineNo c) (addIssue_calls mapfileText options)"
proof -
  let ?lines = "detector_lines mapfileText"
  obtain stack state calls where d:
    "detect_lines options 0 ?lines ([\<lparr>ftype = ''ROOT'', fline = 0, fcol = 0\<rparr>], initial_lexer_state) =
     ((stack, state), calls)"
    by (metis surj_pair)
  from detect_lines_lineNo [of 0 options ?lines
      "([\<lparr>ftype = ''ROOT'', fline = 0, fcol = 0\<rparr>], initial_lexer_state)"] d
  have 1: "list_all (\<lambda>c. 1 \<le> issue_lineNo c) calls" by (auto simp: list_all_iff Suc_le_eq)
  have "1 \<le> length ?lines"
    using split_on_ne [of LF] by (cases ?lines) (auto simp: detector_lines_def)
  with 1 d show ?thesis
    by (simp add: addIssue_calls_def Let_def)
qed

lemma issue_lines_filter: "filter is_issue_line (issue_lines it) = [issue_line_of it]"
  by (simp add: issue_lines_def issue_line_of_def)

lemma concat_issue_lines:
  "filter is_issue_line (concat (map issue_lines a)) = map issue_line_of a"
  by (induction a) (simp_all add: issue_lines_filter)

lemma group_issue_lines:
  "filter is_issue_line
     (let a = filter (\<lambda>it. issue_kind it = k) arr
      in if a = [] then [] else [RBlank, RKindHeading k (length a)] @ concat (map issue_lines a)) =
   map issue_line_of (filter (\<lambda>it. issue_kind it = k) arr)"
  by (cases "filter (\<lambda>it. issue_kind it = k) arr = []") (simp_all add: Let_def concat_issue_lines)

lemma grouped_lines_filter:
  "filter is_issue_line (grouped_lines arr) =
   concat (map (\<lambda>k. map issue_line_of (filter (\<lambda>it. issue_kind it = k) arr)) kind_order)"
  unfolding grouped_lines_def filter_concat map_map comp_def group_issue_lines ..

lemma all_kinds: "k \<in> set kind_order"
  by (cases k) (simp_all add: kind_order_def)

lemma grouped_lines_set:
  "set (filter is_issue_line (grouped_lines arr)) = issue_line_of ` set arr"
proof
  show "set (filter is_issue_line (grouped_lines arr)) \<subseteq> issue_line_of ` set arr"
    unfolding grouped_lines_filter by auto
  show "issue_line_of ` set arr \<subseteq> set (filter is_issue_line (grouped_lines arr))"
  proof
    fix x assume "x \<in> issue_line_of ` set arr"
    then obtain it where it: "it \<in> set arr" "x = issue_line_of it" by auto
    then show "x \<in> set (filter is_issue_line (grouped_lines arr))"
      unfolding grouped_lines_filter using all_kinds [of "issue_kind it"]
      by (auto intro!: bexI [where x = "issue_kind it"])
  qed
qed

lemma section_issue_lines:
  assumes "\<not> is_issue_line h"
  shows "set (filter is_issue_line (if arr \<noteq> [] then [RBlank, h] @ grouped_lines arr else [])) =
    issue_line_of ` set arr"
proof (cases "arr = []")
  case True
  then show ?thesis by simp
next
  case False
  with assms have "filter is_issue_line (if arr \<noteq> [] then [RBlank, h] @ grouped_lines arr else []) =
      filter is_issue_line (grouped_lines arr)" by simp
  then show ?thesis by (simp only: grouped_lines_set)
qed

lemma build_report_issue_lines:
  "set (filter is_issue_line (build_report options st)) = issue_line_of ` set (issues st)"
proof (cases "issues st = []")
  case True
  then show ?thesis by (simp add: build_report_def)
next
  case False
  let ?hard = "filter (\<lambda>i. issue_severity i = HARD) (issues st)"
  let ?soft = "filter (\<lambda>i. issue_severity i = SOFT) (issues st)"
  let ?H = "if ?hard \<noteq> [] then [RBlank, RHardHeading (length ?hard)] @ grouped_lines ?hard else []"
  let ?S = "if ?soft \<noteq> [] then [RBlank, RSoftHeading (length ?soft)] @ grouped_lines ?soft else []"
  let ?T = "(if suppressedSoftCount st > 0 then [RBlank, RSuppressed (suppressedSoftCount st)] else [])
      @ (if includeNotes options then [RBlank, RNote] else [])"
  have r: "build_report options st = [RFound (length (issues st))] @ ?H @ ?S @ ?T"
    using False by (simp add: build_report_def Let_def)
  have t: "filter is_issue_line
      (if suppressedSoftCount st > 0 then [RBlank, RSuppressed (suppressedSoftCount st)] else []) = []"
    "filter is_issue_line (if includeNotes options then [RBlank, RNote] else []) = []"
    by simp_all
  have h: "set (filter is_issue_line ?H) = issue_line_of ` set ?hard"
    by (rule section_issue_lines) simp
  have s: "set (filter is_issue_line ?S) = issue_line_of ` set ?soft"
    by (rule section_issue_lines) simp
  have f0: "filter is_issue_line [RFound (length (issues st))] = []" by simp
  have "filter is_issue_line (build_report options st) =
      filter is_issue_line ?H @ filter is_issue_line ?S"
    unfolding r filter_append f0 t by (simp only: append_Nil append_Nil2)
  then have "set (filter is_issue_line (build_report options st)) =
      set (filter is_issue_line ?H) \<union> set (filter is_issue_line ?S)"
    by (simp only: set_append)
  also have "\<dots> = issue_line_of ` set ?hard \<union> issue_line_of ` set ?soft"
    unfolding h s ..
  also have "\<dots> = issue_line_of ` set (issues st)"
  proof -
    have "issue_severity i = HARD \<or> issue_severity i = SOFT" for i
      by (cases "issue_severity i") auto
    then have "set (issues st) = set ?hard \<union> set ?soft" by auto
    then show ?thesis by (simp only: image_Un)
  qed
  finally show ?thesis .
qed

lemma build_report_summary:
  "issues st \<noteq> [] \<Longrightarrow> suppressedSoftCount st > 0 \<Longrightarrow>
   RSuppressed (suppressedSoftCount st) \<in> set (build_report options st)"
  by (simp add: build_report_def Let_def)

lemma suppressed_needs_kept:
  assumes "list_all (\<lambda>c. 1 \<le> issue_lineNo c) calls"
    "suppressedSoftCount (foldl (addIssue n) initial_issue_state calls) > 0"
  shows "issues (foldl (addIssue n) initial_issue_state calls) \<noteq> []"
proof -
  from cascade_fold [OF assms(1), of n] have
    I1: "issues (foldl (addIssue n) initial_issue_state calls) =
           map ((!) calls) (filter (\<lambda>j. \<not> suppressed n calls j) [0..<length calls])" and
    I2: "suppressedSoftCount (foldl (addIssue n) initial_issue_state calls) =
           length (filter (suppressed n calls) [0..<length calls])" by blast+
  from assms(2) I2 have "filter (suppressed n calls) [0..<length calls] \<noteq> []" by auto
  then obtain j where j: "j < length calls" "suppressed n calls j"
    by (auto simp: filter_empty_conv)
  then obtain i where i: "i < j" "issue_severity (calls ! i) = HARD"
    by (auto simp: suppressed_iff)
  then have "\<not> suppressed n calls i" by (simp add: suppressed_iff)
  with i j have "i \<in> set (filter (\<lambda>j. \<not> suppressed n calls j) [0..<length calls])" by simp
  then have "filter (\<lambda>j. \<not> suppressed n calls j) [0..<length calls] \<noteq> []"
    by (metis empty_iff empty_set)
  then show ?thesis unfolding I1 by simp
qed

text \<open>
  Claim C6 (cascade suppression). Of the issues passed to \<open>addIssue\<close>, the report keeps
  exactly those that are not suppressed, where an issue is suppressed when it is SOFT and
  an earlier call recorded a HARD issue at a line \<open>L\<close> with the line of the SOFT issue at
  most \<open>L + softSuppressionLines\<close>. The suppressed issues are counted, the issue lines of
  the report are those of the kept issues, and when the count is positive the report has
  the summary line with the count. The default of \<open>softSuppressionLines\<close> is 25.
\<close>

theorem cascade_suppression:
  "issues (final_issue_state t options) =
     map ((!) (addIssue_calls t options))
       (filter (\<lambda>j. \<not> suppressed (softSuppressionLines options) (addIssue_calls t options) j)
          [0..<length (addIssue_calls t options)])
   \<and> suppressedSoftCount (final_issue_state t options) =
     length (filter (suppressed (softSuppressionLines options) (addIssue_calls t options))
          [0..<length (addIssue_calls t options)])
   \<and> set (filter is_issue_line (syntaxisErrorDetector t options)) =
     issue_line_of ` set (issues (final_issue_state t options))
   \<and> (suppressedSoftCount (final_issue_state t options) > 0 \<longrightarrow>
        RSuppressed (suppressedSoftCount (final_issue_state t options))
          \<in> set (syntaxisErrorDetector t options))
   \<and> softSuppressionLines default_detector_options = 25"
proof -
  note pos = addIssue_calls_pos [of t options]
  from cascade_fold [OF pos, of "softSuppressionLines options"]
  have 1: "issues (final_issue_state t options) =
     map ((!) (addIssue_calls t options))
       (filter (\<lambda>j. \<not> suppressed (softSuppressionLines options) (addIssue_calls t options) j)
          [0..<length (addIssue_calls t options)])"
    and 2: "suppressedSoftCount (final_issue_state t options) =
     length (filter (suppressed (softSuppressionLines options) (addIssue_calls t options))
          [0..<length (addIssue_calls t options)])"
    unfolding final_issue_state_def by blast+
  have 3: "set (filter is_issue_line (syntaxisErrorDetector t options)) =
     issue_line_of ` set (issues (final_issue_state t options))"
    unfolding syntaxisErrorDetector_def by (rule build_report_issue_lines)
  have 4: "suppressedSoftCount (final_issue_state t options) > 0 \<longrightarrow>
        RSuppressed (suppressedSoftCount (final_issue_state t options))
          \<in> set (syntaxisErrorDetector t options)"
    unfolding syntaxisErrorDetector_def
    using suppressed_needs_kept [OF pos, of "softSuppressionLines options"] build_report_summary
    unfolding final_issue_state_def by blast
  have 5: "softSuppressionLines default_detector_options = 25"
    by (simp add: default_detector_options_def)
  from 1 2 3 4 5 show ?thesis by blast
qed

text \<open>The set \<open>GLOBAL_KNOWN\<close>, computed once.\<close>

lemma GLOBAL_KNOWN_list [code]:
  "GLOBAL_KNOWN =
     [''MAP'', ''LAYER'', ''CLASS'', ''STYLE'', ''LABEL'', ''WEB'',
      ''OUTPUTFORMAT'', ''METADATA'', ''PROJECTION'', ''SYMBOL'', ''LEGEND'',
      ''SCALEBAR'', ''QUERYMAP'', ''REFERENCE'', ''CLUSTER'', ''GRID'',
      ''COMPOSITE'', ''NAME'', ''STATUS'', ''EXTENT'', ''UNITS'', ''SIZE'',
      ''IMAGETYPE'', ''IMAGECOLOR'', ''SHAPEPATH'', ''FONTSET'', ''SYMBOLSET'',
      ''CONFIG'', ''DEBUG'', ''MAXSIZE'', ''RESOLUTION'', ''DEFRESOLUTION'',
      ''ANGLE'', ''TRANSPARENT'', ''END'', ''INCLUDE'', ''TYPE'', ''DATA'',
      ''CONNECTION'', ''CONNECTIONTYPE'', ''FILTER'', ''FILTERITEM'',
      ''FILTERTYPE'', ''CLASSITEM'', ''LABELITEM'', ''GROUP'',
      ''MINSCALEDENOM'', ''MAXSCALEDENOM'', ''MINDISTANCE'', ''MAXDISTANCE'',
      ''OPACITY'', ''TRANSPARENCY'', ''PROCESSING'', ''VALIDATION'',
      ''TEMPLATE'', ''HEADER'', ''FOOTER'', ''TOLERANCE'', ''TOLERANCEUNITS'',
      ''TITLE'', ''EXPRESSION'', ''TEXT'', ''KEYIMAGE'', ''COLOR'',
      ''OUTLINECOLOR'', ''WIDTH'', ''MINWIDTH'', ''MAXWIDTH'', ''MINSIZE'',
      ''PATTERN'', ''GAP'', ''FONT'', ''SHADOWCOLOR'', ''SHADOWSIZE'',
      ''POSITION'', ''OFFSET'', ''WRAP'', ''BUFFER'', ''IMAGEPATH'',
      ''IMAGEURL'', ''ERROR'', ''DRIVER'', ''MIMETYPE'', ''IMAGEMODE'',
      ''EXTENSION'', ''FORMATOPTION'']"
  by code_simp

theorem cascade_suppression_witness:
  "suppressedSoftCount (final_issue_state
      ''CLASS\<newline>FOO 1\<newline>BAR\<newline>END'' default_detector_options) = 5
   \<and> RSuppressed 5 \<in> set (syntaxisErrorDetector
      ''CLASS\<newline>FOO 1\<newline>BAR\<newline>END'' default_detector_options)
   \<and> map issue_kind (issues (final_issue_state
      ''CLASS\<newline>FOO 1\<newline>BAR\<newline>END'' default_detector_options)) = [NESTING]"
proof -
  let ?t = "''CLASS\<newline>FOO 1\<newline>BAR\<newline>END''"
  have c: "suppressedSoftCount (final_issue_state ?t default_detector_options) = 5"
    by code_simp
  have k: "map issue_kind (issues (final_issue_state ?t default_detector_options)) = [NESTING]"
    by code_simp
  from cascade_suppression [of ?t default_detector_options] c
  have "RSuppressed 5 \<in> set (syntaxisErrorDetector ?t default_detector_options)" by simp
  with c k show ?thesis by blast
qed

end
